theory Spec2Isabelle
  imports Main "HOL-Library.Word" "HOL-Library.List_Lexorder" "HOL-Library.Char_ord"
begin

unbundle bit_operations_syntax

section \<open>The IP list of modules/l4remoteiplist/iplist.go\<close>

text \<open>
  The development embeds the functions of \<^verbatim>\<open>iplist.go\<close>: \<^verbatim>\<open>NewIPList\<close>,
  \<^verbatim>\<open>IsMatched\<close>, \<^verbatim>\<open>ipFileDirectoryExists\<close>, \<^verbatim>\<open>ipFileExists\<close>, \<^verbatim>\<open>monitor\<close> and
  \<^verbatim>\<open>loadIPAddresses\<close>. Each call is one sequential run: the mutex
  \<^verbatim>\<open>reloadNeededMutex\<close> is therefore not a field of the model. What the operating
  system answers (\<^verbatim>\<open>os.Lstat\<close>, \<^verbatim>\<open>os.Open\<close>, the bytes and the error a read delivers) is
  an explicit argument, and so are the two library functions whose bodies are not part
  of the repository and whose results no property below depends on
  (\<^verbatim>\<open>filepath.Dir\<close>, \<^verbatim>\<open>netip.ParseAddr\<close>).
\<close>

subsection \<open>Addresses: net/netip\<close>

text \<open>
  A \<^verbatim>\<open>netip.Addr\<close> is a 128-bit value (two 64-bit halves) and a tag \<^verbatim>\<open>z\<close>: the zero
  value (\<^verbatim>\<open>z0\<close>), an IPv4 address (\<^verbatim>\<open>z4\<close>), or an IPv6 address with its zone, where the
  empty zone is \<^verbatim>\<open>z6noz\<close>.
\<close>

datatype zone = z0 | z4 | z6 string

datatype Addr = Addr (addr_hi: "64 word") (addr_lo: "64 word") (addr_z: zone)

definition BitLen :: "Addr \<Rightarrow> nat" where
  "BitLen ip = (case addr_z ip of z0 \<Rightarrow> 0 | z4 \<Rightarrow> 32 | z6 _ \<Rightarrow> 128)"

definition Is6 :: "Addr \<Rightarrow> bool" where
  "Is6 ip = (addr_z ip \<noteq> z0 \<and> addr_z ip \<noteq> z4)"

definition Zone :: "Addr \<Rightarrow> string" where
  "Zone ip = (case addr_z ip of z6 zn \<Rightarrow> zn | _ \<Rightarrow> [])"

text \<open>
  \<^verbatim>\<open>Addr.Compare\<close>: by bit length, then by the two halves as unsigned numbers, then,
  for IPv6, by the zone as a byte string.
\<close>

definition Compare :: "Addr \<Rightarrow> Addr \<Rightarrow> int" where
  "Compare ip ip2 =
     (if BitLen ip < BitLen ip2 then - 1
      else if BitLen ip > BitLen ip2 then 1
      else if addr_hi ip < addr_hi ip2 then - 1
      else if addr_hi ip > addr_hi ip2 then 1
      else if addr_lo ip < addr_lo ip2 then - 1
      else if addr_lo ip > addr_lo ip2 then 1
      else if Is6 ip then
        (if Zone ip < Zone ip2 then - 1
         else if Zone ip > Zone ip2 then 1
         else 0)
      else 0)"

subsection \<open>Errors and log entries\<close>

datatype errno = ENOENT | ENOTDIR | EACCES | EISDIR | EIO

text \<open>
  The error values the code can hold: an error of the operating system, the scanner's
  \<^verbatim>\<open>bufio.ErrTooLong\<close>, an error of \<^verbatim>\<open>netip.ParseAddr\<close>, an error of the file watcher, and the
  three errors \<^verbatim>\<open>iplist.go\<close> builds with \<^verbatim>\<open>fmt.Errorf\<close> (the path, and the wrapped error).
\<close>

datatype error =
    PathError errno
  | ErrTooLong
  | ParseAddrError string
  | WatcherError string
  | DirectoryNotFound string
  | OpenFailed string error
  | ReadFailed string error

datatype log_entry =
    LogError string "error option"
  | LogDebug string

subsection \<open>The operating system\<close>

text \<open>
  \<^verbatim>\<open>os.Lstat\<close> returns an error or a \<^verbatim>\<open>FileInfo\<close>, of which the code reads \<^verbatim>\<open>IsDir\<close>.
  \<^verbatim>\<open>os.Open\<close> returns an error or a file; reading the file delivers some bytes and
  then ends, at the end of the file (\<open>None\<close>) or with an error.
\<close>

datatype FileInfo = FileInfo (IsDir: bool)

datatype File = File (contents: string) (read_error: "error option")

record FS =
  Lstat :: "string \<Rightarrow> error + FileInfo"
  Open :: "string \<Rightarrow> error + File"

subsection \<open>bufio.Scanner with the default split function\<close>

text \<open>
  \<^verbatim>\<open>bufio.NewScanner\<close> scans lines (\<^verbatim>\<open>ScanLines\<close>) through a buffer that grows to
  \<^verbatim>\<open>MaxScanTokenSize\<close> bytes and no further. A line is the bytes up to the next newline,
  one trailing carriage return dropped; the bytes after the last newline are a line
  when there are any. When the buffer is full and holds no newline, \<^verbatim>\<open>Scan\<close> stops
  with \<^verbatim>\<open>ErrTooLong\<close>. After a read error the buffered rest is still scanned, and
  \<^verbatim>\<open>Err\<close> returns the read error at the end; at the end of the file \<^verbatim>\<open>Err\<close> returns nil.
\<close>

definition MaxScanTokenSize :: nat where
  "MaxScanTokenSize = 64 * 1024"

definition newline :: char where
  "newline = CHR 0x0A"

definition carriage_return :: char where
  "carriage_return = CHR 0x0D"

definition dropCR :: "string \<Rightarrow> string" where
  "dropCR data =
     (if length data > 0 \<and> last data = carriage_return then butlast data else data)"

record Scanner =
  unread :: string
  src_err :: "error option"
  token :: string
  err :: "error option"

definition NewScanner :: "File \<Rightarrow> Scanner" where
  "NewScanner file =
     \<lparr>unread = contents file, src_err = read_error file, token = [], err = None\<rparr>"

definition Scan :: "Scanner \<Rightarrow> bool \<times> Scanner" where
  "Scan s =
     (let data = unread s; i = length (takeWhile (\<lambda>c. c \<noteq> newline) data) in
      if err s \<noteq> None then (False, s)
      else if data = [] then (False, s\<lparr>err := src_err s\<rparr>)
      else if i < length data then
        (if i < MaxScanTokenSize
         then (True, s\<lparr>unread := drop (i + 1) data, token := dropCR (take i data)\<rparr>)
         else (False, s\<lparr>err := Some ErrTooLong\<rparr>))
      else
        (if length data < MaxScanTokenSize
         then (True, s\<lparr>unread := [], token := dropCR data\<rparr>)
         else (False, s\<lparr>err := Some ErrTooLong\<rparr>)))"

definition Text :: "Scanner \<Rightarrow> string" where
  "Text s = token s"

definition Err :: "Scanner \<Rightarrow> error option" where
  "Err s = err s"

lemma Scan_unread_less:
  "Scan s = (True, s') \<Longrightarrow> length (unread s') < length (unread s)"
  by (auto simp: Scan_def Let_def split: if_splits)

subsection \<open>The list\<close>

text \<open>
  The fields of \<^verbatim>\<open>IPList\<close>. The logger is the sequence of entries written so far; the
  context \<^verbatim>\<open>ctx\<close> is read by \<^verbatim>\<open>monitor\<close> only, as the message that it is done.
\<close>

record IPList =
  ipFile :: string
  ipAddresses :: "Addr list"
  logger :: "log_entry list"
  reloadNeeded :: bool

definition log_Error :: "string \<Rightarrow> error option \<Rightarrow> IPList \<Rightarrow> IPList" where
  "log_Error msg e b = b\<lparr>logger := logger b @ [LogError msg e]\<rparr>"

definition log_Debug :: "string \<Rightarrow> IPList \<Rightarrow> IPList" where
  "log_Debug msg b = b\<lparr>logger := logger b @ [LogDebug msg]\<rparr>"

definition ipFileDirectoryExists :: "(string \<Rightarrow> string) \<Rightarrow> FS \<Rightarrow> IPList \<Rightarrow> bool" where
  "ipFileDirectoryExists Dir fs b =
     (case Lstat fs (Dir (ipFile b)) of
        Inl e \<Rightarrow> False
      | Inr st \<Rightarrow> if \<not> IsDir st then False else True)"

definition ipFileExists :: "FS \<Rightarrow> IPList \<Rightarrow> bool" where
  "ipFileExists fs b =
     (case Lstat fs (ipFile b) of
        Inl e \<Rightarrow> False
      | Inr st \<Rightarrow> if IsDir st then False else True)"

definition NewIPList ::
  "(string \<Rightarrow> string) \<Rightarrow> FS \<Rightarrow> string \<Rightarrow> log_entry list \<Rightarrow> error + IPList" where
  "NewIPList Dir fs ipFile' logger' =
     (let ipList = \<lparr>ipFile = ipFile', ipAddresses = [], logger = logger', reloadNeeded = True\<rparr> in
      if \<not> ipFileDirectoryExists Dir fs ipList
      then Inl (DirectoryNotFound ipFile')
      else Inr ipList)"

text \<open>The loop \<^verbatim>\<open>for scanner.Scan() { ... }\<close> of \<^verbatim>\<open>loadIPAddresses\<close>.\<close>

function scan_loop ::
  "(string \<Rightarrow> error + Addr) \<Rightarrow> Scanner \<Rightarrow> Addr list \<Rightarrow> Addr list \<times> Scanner" where
  "scan_loop ParseAddr scanner ipAddresses' =
     (if fst (Scan scanner) then
        (let line = Text (snd (Scan scanner)) in
         case ParseAddr line of
           Inr ip \<Rightarrow> scan_loop ParseAddr (snd (Scan scanner)) (ipAddresses' @ [ip])
         | Inl e \<Rightarrow> scan_loop ParseAddr (snd (Scan scanner)) ipAddresses')
      else (ipAddresses', snd (Scan scanner)))"
  by pat_completeness auto
termination
proof (relation "measure (\<lambda>(P, s, acc). length (unread s))")
  show "wf (measure (\<lambda>(P, s, acc). length (unread s)))" by simp
next
  fix ParseAddr :: "string \<Rightarrow> error + Addr" and scanner :: Scanner
    and ipAddresses' :: "Addr list" and x :: string and e :: error
  assume "fst (Scan scanner)"
  then have "Scan scanner = (True, snd (Scan scanner))"
    by (cases "Scan scanner") simp
  then show "((ParseAddr, snd (Scan scanner), ipAddresses'), ParseAddr, scanner, ipAddresses')
      \<in> measure (\<lambda>(P, s, acc). length (unread s))"
    using Scan_unread_less by simp
next
  fix ParseAddr :: "string \<Rightarrow> error + Addr" and scanner :: Scanner
    and ipAddresses' :: "Addr list" and x :: string and ip :: Addr
  assume "fst (Scan scanner)"
  then have "Scan scanner = (True, snd (Scan scanner))"
    by (cases "Scan scanner") simp
  then show "((ParseAddr, snd (Scan scanner), ipAddresses' @ [ip]), ParseAddr, scanner, ipAddresses')
      \<in> measure (\<lambda>(P, s, acc). length (unread s))"
    using Scan_unread_less by simp
qed

declare scan_loop.simps [simp del]

definition loadIPAddresses ::
  "(string \<Rightarrow> error + Addr) \<Rightarrow> FS \<Rightarrow> IPList \<Rightarrow> IPList \<times> error option" where
  "loadIPAddresses ParseAddr fs b =
     (if \<not> ipFileExists fs b then
        ((log_Debug ''ip file not found, nothing to monitor'' b)\<lparr>ipAddresses := []\<rparr>, None)
      else
        (case Open fs (ipFile b) of
           Inl e \<Rightarrow> (b, Some (OpenFailed (ipFile b) e))
         | Inr file \<Rightarrow>
             (let (ipAddresses', scanner) = scan_loop ParseAddr (NewScanner file) [] in
              case Err scanner of
                Some e \<Rightarrow> (b, Some (ReadFailed (ipFile b) e))
              | None \<Rightarrow> (b\<lparr>ipAddresses := ipAddresses'\<rparr>, None))))"

text \<open>The loop \<^verbatim>\<open>for _, listIP := range b.ipAddresses { ... }\<close> of \<^verbatim>\<open>IsMatched\<close>.\<close>

fun range_ipAddresses :: "Addr list \<Rightarrow> Addr \<Rightarrow> bool" where
  "range_ipAddresses [] ip = False"
| "range_ipAddresses (listIP # rest) ip =
     (if Compare listIP ip = 0 then True else range_ipAddresses rest ip)"

definition IsMatched ::
  "(string \<Rightarrow> error + Addr) \<Rightarrow> FS \<Rightarrow> IPList \<Rightarrow> Addr \<Rightarrow> IPList \<times> bool" where
  "IsMatched ParseAddr fs b ip =
     (let b' =
        (if reloadNeeded b then
           (case loadIPAddresses ParseAddr fs b of
              (b', Some e) \<Rightarrow> log_Error ''could not load IP addresses'' (Some e) b'
            | (b', None) \<Rightarrow> log_Debug ''reloaded IP addresses'' (b'\<lparr>reloadNeeded := False\<rparr>))
         else b)
      in (b', range_ipAddresses (ipAddresses b') ip))"

subsection \<open>The watcher\<close>

text \<open>
  An \<^verbatim>\<open>fsnotify.Event\<close> is a path and a set of operations, one bit each; \<^verbatim>\<open>Has\<close> tests
  a bit.
\<close>

datatype Event = Event (Name: string) (Op: "32 word")

definition Create :: "32 word" where "Create = 1"
definition Write :: "32 word" where "Write = 2"
definition Remove :: "32 word" where "Remove = 4"
definition Rename :: "32 word" where "Rename = 8"
definition Chmod :: "32 word" where "Chmod = 16"

definition Has :: "Event \<Rightarrow> 32 word \<Rightarrow> bool" where
  "Has e h = (Op e AND h \<noteq> 0)"

text \<open>
  What one \<^verbatim>\<open>select\<close> of \<^verbatim>\<open>monitor\<close> receives: the context is done, a receive from
  \<^verbatim>\<open>w.Errors\<close>, or a receive from \<^verbatim>\<open>w.Events\<close>; the flag of a receive is false when the
  channel is closed.
\<close>

datatype select_case =
    ctx_Done
  | w_Errors "error option" bool
  | w_Events Event bool

text \<open>One iteration of the loop of \<^verbatim>\<open>monitor\<close>; the flag returned is false on \<^verbatim>\<open>return\<close>.\<close>

definition monitor_select :: "IPList \<Rightarrow> select_case \<Rightarrow> IPList \<times> bool" where
  "monitor_select b c =
     (case c of
        ctx_Done \<Rightarrow> (log_Debug ''caddy closed the context'' b, False)
      | w_Errors e ok \<Rightarrow>
          (let b' = log_Error ''error from file watcher'' e b in
           if \<not> ok then (log_Error ''file watcher was closed'' None b', False)
           else (b', True))
      | w_Events e ok \<Rightarrow>
          (if \<not> ok then (log_Error ''file watcher was closed'' None b, False)
           else if ipFile b = Name e \<and> (Has e Create \<or> Has e Write)
           then (b\<lparr>reloadNeeded := True\<rparr>, True)
           else (b, True)))"

fun monitor_loop :: "IPList \<Rightarrow> select_case list \<Rightarrow> IPList" where
  "monitor_loop b [] = b"
| "monitor_loop b (c # cs) =
     (case monitor_select b c of
        (b', True) \<Rightarrow> monitor_loop b' cs
      | (b', False) \<Rightarrow> b')"

text \<open>
  \<^verbatim>\<open>monitor\<close>, given what \<^verbatim>\<open>fsnotify.NewWatcher\<close> and \<^verbatim>\<open>w.Add\<close> return and the sequence
  of receives of its loop.
\<close>

definition monitor ::
  "(string \<Rightarrow> string) \<Rightarrow> FS \<Rightarrow> error option \<Rightarrow> error option \<Rightarrow> IPList \<Rightarrow>
     select_case list \<Rightarrow> IPList" where
  "monitor Dir fs NewWatcher_err Add_err b cs =
     (case NewWatcher_err of
        Some e \<Rightarrow> log_Error ''error creating a new filesystem watcher'' (Some e) b
      | None \<Rightarrow>
          if \<not> ipFileDirectoryExists Dir fs b
          then log_Error ''directory containing the IP file to monitor does not exist'' None b
          else (case Add_err of
             Some e \<Rightarrow> log_Error ''error watching the file'' (Some e) b
           | None \<Rightarrow> monitor_loop b cs))"

subsection \<open>Sequences of calls\<close>

text \<open>
  A run of one list: queries, in the order in which they take the lock, and receives of
  the watcher between them; the file system stays as it is during the run. The results
  of the queries are returned in order.
\<close>

datatype step = Query Addr | Watch select_case

fun run ::
  "(string \<Rightarrow> error + Addr) \<Rightarrow> FS \<Rightarrow> IPList \<Rightarrow> step list \<Rightarrow> IPList \<times> bool list" where
  "run ParseAddr fs b [] = (b, [])"
| "run ParseAddr fs b (Query ip # steps) =
     (case IsMatched ParseAddr fs b ip of
        (b', r) \<Rightarrow> (case run ParseAddr fs b' steps of (b'', rs) \<Rightarrow> (b'', r # rs)))"
| "run ParseAddr fs b (Watch c # steps) =
     run ParseAddr fs (fst (monitor_select b c)) steps"

text \<open>
  The reloads a log shows: \<^verbatim>\<open>IsMatched\<close> writes this entry after each call of
  \<^verbatim>\<open>loadIPAddresses\<close> that returned no error, and after a failed call it writes the
  other one.
\<close>

definition reloads :: "log_entry list \<Rightarrow> nat" where
  "reloads lg = length (filter (\<lambda>entry. entry = LogDebug ''reloaded IP addresses'') lg)"

definition failed_loads :: "log_entry list \<Rightarrow> nat" where
  "failed_loads lg =
     length (filter
       (\<lambda>entry. case entry of
          LogError msg e \<Rightarrow> msg = ''could not load IP addresses''
        | LogDebug msg \<Rightarrow> False) lg)"

subsection \<open>The lines of a text\<close>

text \<open>
  The newline-delimited lines of a text, as the specification speaks of them: the
  bytes between newlines, and the bytes after the last newline when there are any.
\<close>

function text_lines :: "string \<Rightarrow> string list" where
  "text_lines data =
     (if data = [] then []
      else takeWhile (\<lambda>c. c \<noteq> newline) data
             # text_lines (drop 1 (dropWhile (\<lambda>c. c \<noteq> newline) data)))"
  by pat_completeness auto
termination
proof (relation "measure length")
  show "wf (measure length)" by simp
next
  fix data :: string
  assume "data \<noteq> []"
  moreover have "length (dropWhile (\<lambda>c. c \<noteq> newline) data) \<le> length data"
    by (rule length_dropWhile_le)
  ultimately show "(drop 1 (dropWhile (\<lambda>c. c \<noteq> newline) data), data) \<in> measure length"
    by (cases data) auto
qed

declare text_lines.simps [simp del]

text \<open>The addresses among some lines: the lines that parse, in order.\<close>

fun parsed_addresses :: "(string \<Rightarrow> error + Addr) \<Rightarrow> string list \<Rightarrow> Addr list" where
  "parsed_addresses ParseAddr [] = []"
| "parsed_addresses ParseAddr (line # rest) =
     (case ParseAddr line of
        Inr ip \<Rightarrow> ip # parsed_addresses ParseAddr rest
      | Inl e \<Rightarrow> parsed_addresses ParseAddr rest)"

subsection \<open>Examples\<close>

text \<open>
  Concrete inputs for the worked examples. \<open>example_ParseAddr\<close> and \<open>example_Dir\<close>
  stand for \<^verbatim>\<open>netip.ParseAddr\<close> and \<^verbatim>\<open>filepath.Dir\<close> and agree with them on the lines and
  the path of the examples: \<^verbatim>\<open>10.0.0.1\<close> and \<^verbatim>\<open>10.0.0.2\<close> parse to IPv4 addresses (held as
  IPv4-mapped 128-bit values), a comment and an empty line do not parse, and the
  directory of \<^verbatim>\<open>/etc/caddy/banned\<close> is \<^verbatim>\<open>/etc/caddy\<close>.
\<close>

definition ip_10_0_0_1 :: Addr where
  "ip_10_0_0_1 = Addr 0 0xFFFF0A000001 z4"

definition ip_10_0_0_2 :: Addr where
  "ip_10_0_0_2 = Addr 0 0xFFFF0A000002 z4"

definition ip_10_0_0_3 :: Addr where
  "ip_10_0_0_3 = Addr 0 0xFFFF0A000003 z4"

definition example_ParseAddr :: "string \<Rightarrow> error + Addr" where
  "example_ParseAddr line =
     (if line = ''10.0.0.1'' then Inr ip_10_0_0_1
      else if line = ''10.0.0.2'' then Inr ip_10_0_0_2
      else Inl (ParseAddrError line))"

definition example_Dir :: "string \<Rightarrow> string" where
  "example_Dir path = rev (drop 1 (dropWhile (\<lambda>c. c \<noteq> CHR ''/'') (rev path)))"

definition example_text :: string where
  "example_text =
     ''10.0.0.1'' @ [newline] @ ''# comment'' @ [newline] @ [newline]
       @ ''10.0.0.2'' @ [carriage_return, newline]"

text \<open>
  Three states of the file system: the directory \<^verbatim>\<open>/etc/caddy\<close> holds the file
  \<^verbatim>\<open>banned\<close> with the text above; it holds the file, which cannot be opened; it holds
  no such file.
\<close>

definition fs_with :: "error + FileInfo \<Rightarrow> error + File \<Rightarrow> FS" where
  "fs_with st opened =
     \<lparr>Lstat = (\<lambda>path.
        if path = ''/etc/caddy'' then Inr (FileInfo True)
        else if path = ''/etc/caddy/banned'' then st
        else Inl (PathError ENOENT)),
      Open = (\<lambda>path.
        if path = ''/etc/caddy/banned'' then opened
        else Inl (PathError ENOENT))\<rparr>"

definition fs_readable :: FS where
  "fs_readable = fs_with (Inr (FileInfo False)) (Inr (File example_text None))"

definition fs_unreadable :: FS where
  "fs_unreadable = fs_with (Inr (FileInfo False)) (Inl (PathError EACCES))"

definition fs_absent :: FS where
  "fs_absent = fs_with (Inl (PathError ENOENT)) (Inl (PathError ENOENT))"

definition fresh_list :: IPList where
  "fresh_list =
     \<lparr>ipFile = ''/etc/caddy/banned'', ipAddresses = [], logger = [], reloadNeeded = True\<rparr>"

definition stale_list :: IPList where
  "stale_list = fresh_list\<lparr>ipAddresses := [ip_10_0_0_3]\<rparr>"

text \<open>
  Two more states: the file starts with an address and goes on with a comment line of
  \<^verbatim>\<open>MaxScanTokenSize\<close> bytes; reading the file delivers one line and then fails.
\<close>

definition long_line_text :: string where
  "long_line_text =
     ''10.0.0.1'' @ newline # replicate MaxScanTokenSize (CHR ''#'') @ newline # []"

definition fs_long_line :: FS where
  "fs_long_line = fs_with (Inr (FileInfo False)) (Inr (File long_line_text None))"

definition fs_read_error :: FS where
  "fs_read_error =
     fs_with (Inr (FileInfo False)) (Inr (File ''10.0.0.1'' (Some (PathError EIO))))"

section \<open>Facts about the library models\<close>

lemma Compare_eq_0_iff: "Compare ip ip2 = 0 \<longleftrightarrow> ip = ip2"
proof (cases ip; cases ip2)
  fix h1 l1 zn1 h2 l2 zn2
  assume ip: "ip = Addr h1 l1 zn1" and ip2: "ip2 = Addr h2 l2 zn2"
  show ?thesis
    unfolding ip ip2
    by (cases zn1; cases zn2)
       (auto simp: Compare_def BitLen_def Is6_def Zone_def)
qed

lemma range_ipAddresses_iff:
  "range_ipAddresses xs ip = (\<exists>listIP\<in>set xs. Compare listIP ip = 0)"
  by (induction xs) auto

lemma range_ipAddresses_mem: "range_ipAddresses xs ip = (ip \<in> set xs)"
  by (induction xs) (auto simp: Compare_eq_0_iff)

lemma Scan_end:
  "err s = None \<Longrightarrow> unread s = [] \<Longrightarrow> Scan s = (False, s\<lparr>err := src_err s\<rparr>)"
  by (simp add: Scan_def)

lemma Scan_line:
  assumes "err s = None" and "unread s \<noteq> []"
    and "length (takeWhile (\<lambda>c. c \<noteq> newline) (unread s)) < MaxScanTokenSize"
  shows "Scan s =
    (True, s\<lparr>unread := drop 1 (dropWhile (\<lambda>c. c \<noteq> newline) (unread s)),
              token := dropCR (takeWhile (\<lambda>c. c \<noteq> newline) (unread s))\<rparr>)"
proof -
  let ?data = "unread s"
  let ?i = "length (takeWhile (\<lambda>c. c \<noteq> newline) ?data)"
  have tk: "take ?i ?data = takeWhile (\<lambda>c. c \<noteq> newline) ?data"
    by (rule takeWhile_eq_take [symmetric])
  have dr: "drop ?i ?data = dropWhile (\<lambda>c. c \<noteq> newline) ?data"
    by (rule dropWhile_eq_drop [symmetric])
  have le: "?i \<le> length ?data"
    by (rule length_takeWhile_le)
  show ?thesis
  proof (cases "?i < length ?data")
    case True
    have "drop (?i + 1) ?data = drop 1 (drop ?i ?data)"
      by (simp add: add.commute)
    with True assms tk dr show ?thesis
      by (simp add: Scan_def Let_def)
  next
    case False
    with le have eq: "?i = length ?data" by simp
    have tw: "takeWhile (\<lambda>c. c \<noteq> newline) ?data = ?data"
      using tk eq by simp
    have dw: "dropWhile (\<lambda>c. c \<noteq> newline) ?data = []"
      using dr eq by simp
    from assms(3) have "length ?data < MaxScanTokenSize"
      by (simp only: tw)
    with assms(1,2) show ?thesis
      by (simp add: Scan_def Let_def tw dw)
  qed
qed

lemma Scan_too_long:
  assumes "err s = None" and "unread s \<noteq> []"
    and "MaxScanTokenSize \<le> length (takeWhile (\<lambda>c. c \<noteq> newline) (unread s))"
  shows "Scan s = (False, s\<lparr>err := Some ErrTooLong\<rparr>)"
proof -
  have "length (takeWhile (\<lambda>c. c \<noteq> newline) (unread s)) \<le> length (unread s)"
    by (rule length_takeWhile_le)
  with assms show ?thesis
    by (auto simp: Scan_def Let_def)
qed

lemma text_lines_Nil: "text_lines [] = []"
  by (simp add: text_lines.simps)

lemma text_lines_nonempty:
  "data \<noteq> [] \<Longrightarrow>
   text_lines data =
     takeWhile (\<lambda>c. c \<noteq> newline) data
       # text_lines (drop 1 (dropWhile (\<lambda>c. c \<noteq> newline) data))"
  by (subst text_lines.simps) simp

lemma scan_loop_lines:
  assumes "err s = None" and "src_err s = None"
    and "\<forall>l\<in>set (text_lines (unread s)). length l < MaxScanTokenSize"
  shows "fst (scan_loop P s acc) = acc @ parsed_addresses P (map dropCR (text_lines (unread s)))
       \<and> err (snd (scan_loop P s acc)) = None"
  using assms
proof (induction P s acc rule: scan_loop.induct)
  case (1 P s acc)
  show ?case
  proof (cases "unread s = []")
    case True
    with "1.prems" show ?thesis
      by (subst (1 2) scan_loop.simps) (simp add: Scan_end text_lines_Nil)
  next
    case False
    let ?l = "takeWhile (\<lambda>c. c \<noteq> newline) (unread s)"
    let ?rest = "drop 1 (dropWhile (\<lambda>c. c \<noteq> newline) (unread s))"
    let ?s' = "s\<lparr>unread := ?rest, token := dropCR ?l\<rparr>"
    have tl: "text_lines (unread s) = ?l # text_lines ?rest"
      using False by (rule text_lines_nonempty)
    with "1.prems"(3) have short: "length ?l < MaxScanTokenSize"
      and rest: "\<forall>l\<in>set (text_lines (unread ?s')). length l < MaxScanTokenSize"
      by simp_all
    have sc: "Scan s = (True, ?s')"
      using "1.prems"(1) False short by (rule Scan_line)
    have e': "err ?s' = None" "src_err ?s' = None"
      using "1.prems" by simp_all
    show ?thesis
    proof (cases "P (dropCR ?l)")
      case (Inl e)
      have "fst (scan_loop P ?s' acc)
              = acc @ parsed_addresses P (map dropCR (text_lines (unread ?s')))
          \<and> err (snd (scan_loop P ?s' acc)) = None"
        using "1.IH"(1)[of "Text (snd (Scan s))" e] sc Inl e' rest
        by (simp add: Text_def)
      then show ?thesis
        using sc Inl tl by (subst (1 2) scan_loop.simps) (simp add: Text_def)
    next
      case (Inr ip)
      have "fst (scan_loop P ?s' (acc @ [ip]))
              = (acc @ [ip]) @ parsed_addresses P (map dropCR (text_lines (unread ?s')))
          \<and> err (snd (scan_loop P ?s' (acc @ [ip]))) = None"
        using "1.IH"(2)[of "Text (snd (Scan s))" ip] sc Inr e' rest
        by (simp add: Text_def)
      then show ?thesis
        using sc Inr tl by (subst (1 2) scan_loop.simps) (simp add: Text_def)
    qed
  qed
qed

section \<open>Facts about loadIPAddresses\<close>

lemma scan_loop_src_err:
  "src_err s \<noteq> None \<Longrightarrow> err (snd (scan_loop P s acc)) \<noteq> None"
proof (induction P s acc rule: scan_loop.induct)
  case (1 P s acc)
  show ?case
  proof (cases "fst (Scan s)")
    case True
    then have se: "src_err (snd (Scan s)) = src_err s"
      by (auto simp: Scan_def Let_def split: if_splits)
    show ?thesis
    proof (cases "P (Text (snd (Scan s)))")
      case (Inl e)
      with True 1 se show ?thesis
        by (subst scan_loop.simps) simp
    next
      case (Inr ip)
      with True 1 se show ?thesis
        by (subst scan_loop.simps) simp
    qed
  next
    case False
    then have "err (snd (Scan s)) \<noteq> None"
      using "1.prems" by (auto simp: Scan_def Let_def split: if_splits)
    with False show ?thesis
      by (subst scan_loop.simps) simp
  qed
qed

lemma loadIPAddresses_absent:
  "\<not> ipFileExists fs b \<Longrightarrow>
   loadIPAddresses P fs b =
     ((log_Debug ''ip file not found, nothing to monitor'' b)\<lparr>ipAddresses := []\<rparr>, None)"
  by (simp add: loadIPAddresses_def)

lemma loadIPAddresses_error_unchanged:
  "snd (loadIPAddresses P fs b) = Some e \<Longrightarrow> fst (loadIPAddresses P fs b) = b"
  by (auto simp: loadIPAddresses_def Let_def split: if_splits sum.splits prod.splits option.splits)

lemma loadIPAddresses_open_error:
  "ipFileExists fs b \<Longrightarrow> Open fs (ipFile b) = Inl e \<Longrightarrow>
   loadIPAddresses P fs b = (b, Some (OpenFailed (ipFile b) e))"
  by (simp add: loadIPAddresses_def)

lemma loadIPAddresses_read_error:
  assumes "ipFileExists fs b" and "Open fs (ipFile b) = Inr file" and "read_error file \<noteq> None"
  shows "\<exists>e. loadIPAddresses P fs b = (b, Some (ReadFailed (ipFile b) e))"
proof -
  have "src_err (NewScanner file) \<noteq> None"
    using assms(3) by (simp add: NewScanner_def)
  then have "err (snd (scan_loop P (NewScanner file) [])) \<noteq> None"
    by (rule scan_loop_src_err)
  then show ?thesis
    using assms(1,2)
    by (cases "scan_loop P (NewScanner file) []")
       (auto simp: loadIPAddresses_def Err_def split: option.splits)
qed

lemma loadIPAddresses_fields:
  "ipFile (fst (loadIPAddresses P fs b)) = ipFile b"
  "reloadNeeded (fst (loadIPAddresses P fs b)) = reloadNeeded b"
  by (auto simp: loadIPAddresses_def log_Debug_def Let_def split: sum.splits prod.splits option.splits)

lemma loadIPAddresses_same_file:
  assumes "ipFile b1 = ipFile b2"
  shows "snd (loadIPAddresses P fs b1) = snd (loadIPAddresses P fs b2)"
    and "snd (loadIPAddresses P fs b1) = None \<Longrightarrow>
         ipAddresses (fst (loadIPAddresses P fs b1)) = ipAddresses (fst (loadIPAddresses P fs b2))"
  using assms
  by (auto simp: loadIPAddresses_def ipFileExists_def log_Debug_def Let_def
      split: sum.splits prod.splits option.splits if_splits)

lemma text_lines_length: "l \<in> set (text_lines data) \<Longrightarrow> length l \<le> length data"
proof (induction data arbitrary: l rule: text_lines.induct)
  case (1 data)
  show ?case
  proof (cases "data = []")
    case True
    with "1.prems" show ?thesis by (simp add: text_lines_Nil)
  next
    case False
    let ?rest = "drop 1 (dropWhile (\<lambda>c. c \<noteq> newline) data)"
    from False "1.prems"
    consider "l = takeWhile (\<lambda>c. c \<noteq> newline) data" | "l \<in> set (text_lines ?rest)"
      by (auto simp: text_lines_nonempty)
    then show ?thesis
    proof cases
      case 1
      then show ?thesis by (simp add: length_takeWhile_le)
    next
      case 2
      with False "1.IH" have "length l \<le> length ?rest" by simp
      also have "\<dots> \<le> length (dropWhile (\<lambda>c. c \<noteq> newline) data)" by simp
      also have "\<dots> \<le> length data" by (rule length_dropWhile_le)
      finally show ?thesis .
    qed
  qed
qed

lemma scan_loop_too_long:
  assumes "err s = None"
    and "\<exists>l\<in>set (text_lines (unread s)). MaxScanTokenSize \<le> length l"
  shows "err (snd (scan_loop P s acc)) = Some ErrTooLong"
  using assms
proof (induction P s acc rule: scan_loop.induct)
  case (1 P s acc)
  from "1.prems"(2) have ne: "unread s \<noteq> []"
    by (auto simp: text_lines_Nil)
  let ?l = "takeWhile (\<lambda>c. c \<noteq> newline) (unread s)"
  let ?rest = "drop 1 (dropWhile (\<lambda>c. c \<noteq> newline) (unread s))"
  let ?s' = "s\<lparr>unread := ?rest, token := dropCR ?l\<rparr>"
  have tl: "text_lines (unread s) = ?l # text_lines ?rest"
    using ne by (rule text_lines_nonempty)
  show ?case
  proof (cases "length ?l < MaxScanTokenSize")
    case False
    then have "Scan s = (False, s\<lparr>err := Some ErrTooLong\<rparr>)"
      using "1.prems"(1) ne by (simp add: Scan_too_long)
    then show ?thesis
      by (subst scan_loop.simps) simp
  next
    case True
    have sc: "Scan s = (True, ?s')"
      using "1.prems"(1) ne True by (rule Scan_line)
    from True "1.prems"(2) tl
    have rest: "\<exists>l\<in>set (text_lines (unread ?s')). MaxScanTokenSize \<le> length l"
      by auto
    have e': "err ?s' = None"
      using "1.prems"(1) by simp
    show ?thesis
    proof (cases "P (dropCR ?l)")
      case (Inl e)
      have "err (snd (scan_loop P ?s' acc)) = Some ErrTooLong"
        using "1.IH"(1)[of "Text (snd (Scan s))" e] sc Inl e' rest
        by (simp add: Text_def)
      then show ?thesis
        using sc Inl by (subst scan_loop.simps) (simp add: Text_def)
    next
      case (Inr ip)
      have "err (snd (scan_loop P ?s' (acc @ [ip]))) = Some ErrTooLong"
        using "1.IH"(2)[of "Text (snd (Scan s))" ip] sc Inr e' rest
        by (simp add: Text_def)
      then show ?thesis
        using sc Inr by (subst scan_loop.simps) (simp add: Text_def)
    qed
  qed
qed

lemma loadIPAddresses_lines:
  assumes "ipFileExists fs b" and "Open fs (ipFile b) = Inr file" and "read_error file = None"
    and "\<forall>l\<in>set (text_lines (contents file)). length l < MaxScanTokenSize"
  shows "loadIPAddresses P fs b =
    (b\<lparr>ipAddresses := parsed_addresses P (map dropCR (text_lines (contents file)))\<rparr>, None)"
proof -
  have "fst (scan_loop P (NewScanner file) [])
          = [] @ parsed_addresses P (map dropCR (text_lines (unread (NewScanner file))))
      \<and> err (snd (scan_loop P (NewScanner file) [])) = None"
    using assms(3,4) by (intro scan_loop_lines) (simp_all add: NewScanner_def)
  then show ?thesis
    using assms(1,2)
    by (cases "scan_loop P (NewScanner file) []")
       (simp add: loadIPAddresses_def Err_def NewScanner_def)
qed

lemma loadIPAddresses_too_long:
  assumes "ipFileExists fs b" and "Open fs (ipFile b) = Inr file"
    and "\<exists>l\<in>set (text_lines (contents file)). MaxScanTokenSize \<le> length l"
  shows "loadIPAddresses P fs b = (b, Some (ReadFailed (ipFile b) ErrTooLong))"
proof -
  have "err (snd (scan_loop P (NewScanner file) [])) = Some ErrTooLong"
    using assms(3) by (intro scan_loop_too_long) (simp_all add: NewScanner_def)
  then show ?thesis
    using assms(1,2)
    by (cases "scan_loop P (NewScanner file) []")
       (simp add: loadIPAddresses_def Err_def)
qed

lemma parsed_addresses_append:
  "parsed_addresses P (ls1 @ ls2) = parsed_addresses P ls1 @ parsed_addresses P ls2"
  by (induction ls1) (auto split: sum.splits)

lemma parsed_addresses_insert:
  "P l = Inl e \<Longrightarrow> parsed_addresses P (ls1 @ l # ls2) = parsed_addresses P (ls1 @ ls2)"
  by (simp add: parsed_addresses_append)

lemma text_lines_short:
  "length data < MaxScanTokenSize \<Longrightarrow> \<forall>l\<in>set (text_lines data). length l < MaxScanTokenSize"
  using text_lines_length by fastforce

lemma text_lines_line:
  assumes "newline \<notin> set l"
  shows "text_lines (l @ newline # rest) = l # text_lines rest"
proof -
  have tw: "takeWhile (\<lambda>c. c \<noteq> newline) (l @ newline # rest) = l"
    using assms by (subst takeWhile_append2) auto
  have dw: "dropWhile (\<lambda>c. c \<noteq> newline) (l @ newline # rest) = newline # rest"
    using assms by (subst dropWhile_append2) auto
  show ?thesis
    by (subst text_lines_nonempty) (simp_all add: tw dw)
qed

lemma long_line_text_lines:
  "text_lines long_line_text = [''10.0.0.1'', replicate MaxScanTokenSize (CHR ''#'')]"
proof -
  have "text_lines long_line_text
      = ''10.0.0.1'' # text_lines (replicate MaxScanTokenSize (CHR ''#'') @ newline # [])"
    unfolding long_line_text_def
    by (rule text_lines_line) (simp add: newline_def)
  also have "text_lines (replicate MaxScanTokenSize (CHR ''#'') @ newline # [])
      = replicate MaxScanTokenSize (CHR ''#'') # text_lines []"
    by (rule text_lines_line) (simp add: newline_def)
  finally show ?thesis
    by (simp add: text_lines_Nil)
qed

lemma long_line_load:
  assumes "ipFile b = ''/etc/caddy/banned''"
  shows "loadIPAddresses P fs_long_line b = (b, Some (ReadFailed ''/etc/caddy/banned'' ErrTooLong))"
proof -
  have "ipFileExists fs_long_line b"
    using assms by (simp add: ipFileExists_def fs_long_line_def fs_with_def)
  moreover have "Open fs_long_line (ipFile b) = Inr (File long_line_text None)"
    using assms by (simp add: fs_long_line_def fs_with_def)
  moreover have "\<exists>l\<in>set (text_lines (contents (File long_line_text None))).
      MaxScanTokenSize \<le> length l"
    by (simp add: long_line_text_lines)
  ultimately show ?thesis
    using loadIPAddresses_too_long [of fs_long_line b "File long_line_text None" P] assms
    by simp
qed

lemma scan_loop_src_err_which:
  "src_err s = Some e \<Longrightarrow> err s = None \<Longrightarrow>
   err (snd (scan_loop P s acc)) = Some e \<or> err (snd (scan_loop P s acc)) = Some ErrTooLong"
proof (induction P s acc rule: scan_loop.induct)
  case (1 P s acc)
  show ?case
  proof (cases "fst (Scan s)")
    case True
    then have se: "src_err (snd (Scan s)) = Some e" "err (snd (Scan s)) = None"
      using "1.prems" by (auto simp: Scan_def Let_def split: if_splits)
    show ?thesis
    proof (cases "P (Text (snd (Scan s)))")
      case (Inl e')
      with True 1 se show ?thesis
        by (subst (1 2) scan_loop.simps) simp
    next
      case (Inr ip)
      with True 1 se show ?thesis
        by (subst (1 2) scan_loop.simps) simp
    qed
  next
    case False
    then have "err (snd (Scan s)) = Some e \<or> err (snd (Scan s)) = Some ErrTooLong"
      using "1.prems" by (auto simp: Scan_def Let_def split: if_splits)
    with False show ?thesis
      by (subst (1 2) scan_loop.simps) simp
  qed
qed

lemma loadIPAddresses_read_error_which:
  assumes "ipFileExists fs b" and "Open fs (ipFile b) = Inr file" and "read_error file = Some e"
  shows "loadIPAddresses P fs b = (b, Some (ReadFailed (ipFile b) e))
       \<or> loadIPAddresses P fs b = (b, Some (ReadFailed (ipFile b) ErrTooLong))"
proof -
  have "err (snd (scan_loop P (NewScanner file) [])) = Some e
      \<or> err (snd (scan_loop P (NewScanner file) [])) = Some ErrTooLong"
    using assms(3) by (intro scan_loop_src_err_which) (simp_all add: NewScanner_def)
  then show ?thesis
    using assms(1,2)
    by (cases "scan_loop P (NewScanner file) []")
       (auto simp: loadIPAddresses_def Err_def)
qed

lemma loadIPAddresses_fails_iff:
  "(snd (loadIPAddresses P fs b) \<noteq> None) =
   (ipFileExists fs b \<and>
     (case Open fs (ipFile b) of
        Inl e \<Rightarrow> True
      | Inr file \<Rightarrow> Err (snd (scan_loop P (NewScanner file) [])) \<noteq> None))"
  by (cases "Open fs (ipFile b)")
     (auto simp: loadIPAddresses_def Let_def split: prod.splits option.splits)

section \<open>Facts about IsMatched\<close>

lemma IsMatched_result:
  "snd (IsMatched P fs b ip) = range_ipAddresses (ipAddresses (fst (IsMatched P fs b ip))) ip"
  by (simp add: IsMatched_def Let_def)

lemma IsMatched_clean:
  "\<not> reloadNeeded b \<Longrightarrow> IsMatched P fs b ip = (b, range_ipAddresses (ipAddresses b) ip)"
  by (simp add: IsMatched_def)

lemma IsMatched_reloaded:
  "reloadNeeded b \<Longrightarrow> loadIPAddresses P fs b = (b', None) \<Longrightarrow>
   IsMatched P fs b ip =
     (log_Debug ''reloaded IP addresses'' (b'\<lparr>reloadNeeded := False\<rparr>),
      range_ipAddresses (ipAddresses b') ip)"
  by (simp add: IsMatched_def log_Debug_def)

lemma IsMatched_failed:
  "reloadNeeded b \<Longrightarrow> snd (loadIPAddresses P fs b) = Some e \<Longrightarrow>
   IsMatched P fs b ip =
     (log_Error ''could not load IP addresses'' (Some e) b,
      range_ipAddresses (ipAddresses b) ip)"
  using loadIPAddresses_error_unchanged [of P fs b e]
  by (cases "loadIPAddresses P fs b") (simp add: IsMatched_def log_Error_def)

lemma IsMatched_ipFile: "ipFile (fst (IsMatched P fs b ip)) = ipFile b"
  using loadIPAddresses_fields(1) [of P fs b]
  by (cases "loadIPAddresses P fs b")
     (auto simp: IsMatched_def Let_def log_Error_def log_Debug_def split: option.splits)

section \<open>Facts about the examples\<close>

lemma example_lines:
  "parsed_addresses example_ParseAddr (map dropCR (text_lines example_text))
     = [ip_10_0_0_1, ip_10_0_0_2]"
  by code_simp

lemma example_text_short: "\<forall>l\<in>set (text_lines example_text). length l < MaxScanTokenSize"
  by (rule text_lines_short) (simp add: example_text_def MaxScanTokenSize_def)

lemma example_load:
  assumes "ipFile b = ''/etc/caddy/banned''"
  shows "loadIPAddresses example_ParseAddr fs_readable b
           = (b\<lparr>ipAddresses := [ip_10_0_0_1, ip_10_0_0_2]\<rparr>, None)"
proof -
  have "ipFileExists fs_readable b"
    using assms by (simp add: ipFileExists_def fs_readable_def fs_with_def)
  moreover have "Open fs_readable (ipFile b) = Inr (File example_text None)"
    using assms by (simp add: fs_readable_def fs_with_def)
  ultimately show ?thesis
    using loadIPAddresses_lines [of fs_readable b "File example_text None" example_ParseAddr]
      example_text_short
    by (simp add: example_lines)
qed

section \<open>Queries\<close>

text \<open>
  C1. For every address \<open>ip\<close>, \<open>IsMatched\<close> returns true if and only if some address of
  the snapshot stored when the call has done its reload compares equal to \<open>ip\<close>, and
  comparing equal is being the same value; the linear scan yields true once an element
  matches, whatever follows it, and false on the empty snapshot.
\<close>

theorem IsMatched_iff_in_snapshot:
  "snd (IsMatched P fs b ip)
     = (\<exists>listIP\<in>set (ipAddresses (fst (IsMatched P fs b ip))). Compare listIP ip = 0)
   \<and> snd (IsMatched P fs b ip) = (ip \<in> set (ipAddresses (fst (IsMatched P fs b ip))))
   \<and> (\<forall>listIP. (Compare listIP ip = 0) = (listIP = ip))
   \<and> (\<forall>before listIP after.
        Compare listIP ip = 0 \<longrightarrow> range_ipAddresses (before @ listIP # after) ip)
   \<and> \<not> range_ipAddresses [] ip"
proof -
  have "range_ipAddresses (before @ listIP # after) ip"
    if "Compare listIP ip = 0" for before listIP after
    using that by (simp add: range_ipAddresses_iff)
  then show ?thesis
    by (simp add: IsMatched_result range_ipAddresses_mem Compare_eq_0_iff)
qed

theorem IsMatched_iff_in_snapshot_witness:
  "snd (IsMatched example_ParseAddr fs_readable fresh_list ip_10_0_0_2)
   \<and> \<not> snd (IsMatched example_ParseAddr fs_readable fresh_list ip_10_0_0_3)
   \<and> range_ipAddresses ([ip_10_0_0_1] @ ip_10_0_0_2 # [ip_10_0_0_3]) ip_10_0_0_2"
proof -
  have snapshot: "ipAddresses (fst (IsMatched example_ParseAddr fs_readable fresh_list ip))
      = [ip_10_0_0_1, ip_10_0_0_2]" for ip
    using IsMatched_reloaded [OF _ example_load, of fresh_list ip]
    by (simp add: fresh_list_def log_Debug_def)
  have same: "Compare ip_10_0_0_2 ip_10_0_0_2 = 0"
    by (simp add: Compare_def)
  show ?thesis
    using IsMatched_iff_in_snapshot [of example_ParseAddr fs_readable fresh_list ip_10_0_0_2]
      IsMatched_iff_in_snapshot [of example_ParseAddr fs_readable fresh_list ip_10_0_0_3]
      same
    by (simp add: snapshot ip_10_0_0_1_def ip_10_0_0_2_def ip_10_0_0_3_def)
qed

text \<open>
  C2. When the list is dirty and the reload inside \<open>IsMatched\<close> fails (the file exists
  and opening it returns an error, or reading it ends with an error or the scanner
  reports one), then after the call the flag is still set, the snapshot is the one
  held before, the query is answered from it, the error is logged, and the next query
  calls \<open>loadIPAddresses\<close> again.
\<close>

theorem IsMatched_failed_reload:
  assumes "reloadNeeded b" and "ipFileExists fs b"
    and "(\<exists>e. Open fs (ipFile b) = Inl e)
       \<or> (\<exists>file. Open fs (ipFile b) = Inr file
            \<and> (read_error file \<noteq> None \<or> Err (snd (scan_loop P (NewScanner file) [])) \<noteq> None))"
    and "IsMatched P fs b ip = (b', r)"
  shows "reloadNeeded b'
       \<and> ipAddresses b' = ipAddresses b
       \<and> ipFile b' = ipFile b
       \<and> r = range_ipAddresses (ipAddresses b) ip
       \<and> (\<exists>e. logger b' = logger b @ [LogError ''could not load IP addresses'' (Some e)])
       \<and> (\<forall>fs' ip'. fst (IsMatched P fs' b' ip') =
            (case loadIPAddresses P fs' b' of
               (b'', Some e) \<Rightarrow> log_Error ''could not load IP addresses'' (Some e) b''
             | (b'', None) \<Rightarrow> log_Debug ''reloaded IP addresses'' (b''\<lparr>reloadNeeded := False\<rparr>)))"
proof -
  from assms(3) have "Err (snd (scan_loop P (NewScanner f) [])) \<noteq> None"
    if "Open fs (ipFile b) = Inr f" for f
    using that scan_loop_src_err [of "NewScanner f" P "[]"]
    by (auto simp: NewScanner_def Err_def)
  with assms(2,3) have "snd (loadIPAddresses P fs b) \<noteq> None"
    by (subst loadIPAddresses_fails_iff) (auto split: sum.splits)
  then obtain e where "snd (loadIPAddresses P fs b) = Some e"
    by auto
  with assms(1) have "IsMatched P fs b ip =
      (log_Error ''could not load IP addresses'' (Some e) b, range_ipAddresses (ipAddresses b) ip)"
    by (rule IsMatched_failed)
  with assms(4) have b': "b' = log_Error ''could not load IP addresses'' (Some e) b"
    and r: "r = range_ipAddresses (ipAddresses b) ip"
    by simp_all
  from b' assms(1) have "reloadNeeded b'"
    by (simp add: log_Error_def)
  then have "fst (IsMatched P fs' b' ip') =
      (case loadIPAddresses P fs' b' of
         (b'', Some e) \<Rightarrow> log_Error ''could not load IP addresses'' (Some e) b''
       | (b'', None) \<Rightarrow> log_Debug ''reloaded IP addresses'' (b''\<lparr>reloadNeeded := False\<rparr>))"
    for fs' ip'
    by (simp add: IsMatched_def Let_def split: prod.splits option.splits)
  with b' r assms(1) show ?thesis
    by (simp add: log_Error_def)
qed

theorem IsMatched_failed_reload_witness:
  "reloadNeeded (fst (IsMatched example_ParseAddr fs_unreadable stale_list ip_10_0_0_3))
   \<and> ipAddresses (fst (IsMatched example_ParseAddr fs_unreadable stale_list ip_10_0_0_3))
       = [ip_10_0_0_3]
   \<and> snd (IsMatched example_ParseAddr fs_unreadable stale_list ip_10_0_0_3)"
proof -
  have 1: "reloadNeeded stale_list"
    by (simp add: stale_list_def fresh_list_def)
  have 2: "ipFileExists fs_unreadable stale_list"
    by (simp add: ipFileExists_def fs_unreadable_def fs_with_def stale_list_def fresh_list_def)
  have 3: "Open fs_unreadable (ipFile stale_list) = Inl (PathError EACCES)"
    by (simp add: fs_unreadable_def fs_with_def stale_list_def fresh_list_def)
  have 4: "IsMatched example_ParseAddr fs_unreadable stale_list ip_10_0_0_3
      = (fst (IsMatched example_ParseAddr fs_unreadable stale_list ip_10_0_0_3),
         snd (IsMatched example_ParseAddr fs_unreadable stale_list ip_10_0_0_3))"
    by simp
  have same: "Compare ip_10_0_0_3 ip_10_0_0_3 = 0"
    by (simp add: Compare_def)
  show ?thesis
    using IsMatched_failed_reload [OF 1 2 _ 4] 3 same
    by (simp add: stale_list_def fresh_list_def)
qed

section \<open>Loading and construction\<close>

text \<open>
  C3. When \<open>Lstat\<close> finds no file at the path, \<open>loadIPAddresses\<close> returns no error and
  leaves the empty sequence as the snapshot. When the file exists and opening it
  fails, or reading it ends with an error, \<open>loadIPAddresses\<close> returns an error (which
  wraps the error of \<open>Open\<close>, or the read error or the scanner's own) and the list is as
  it was: no address parsed before the error reaches the snapshot.
\<close>

theorem loadIPAddresses_absent_or_failing:
  "(Lstat fs (ipFile b) = Inl e \<longrightarrow>
      snd (loadIPAddresses P fs b) = None
      \<and> ipAddresses (fst (loadIPAddresses P fs b)) = []
      \<and> ipFile (fst (loadIPAddresses P fs b)) = ipFile b
      \<and> reloadNeeded (fst (loadIPAddresses P fs b)) = reloadNeeded b)
   \<and> (ipFileExists fs b \<and> Open fs (ipFile b) = Inl e \<longrightarrow>
      loadIPAddresses P fs b = (b, Some (OpenFailed (ipFile b) e)))
   \<and> (ipFileExists fs b \<and> Open fs (ipFile b) = Inr file \<and> read_error file = Some e \<longrightarrow>
      loadIPAddresses P fs b = (b, Some (ReadFailed (ipFile b) e))
      \<or> loadIPAddresses P fs b = (b, Some (ReadFailed (ipFile b) ErrTooLong)))"
proof (intro conjI impI)
  assume "Lstat fs (ipFile b) = Inl e"
  then have "loadIPAddresses P fs b =
      ((log_Debug ''ip file not found, nothing to monitor'' b)\<lparr>ipAddresses := []\<rparr>, None)"
    by (intro loadIPAddresses_absent) (simp add: ipFileExists_def)
  then show "snd (loadIPAddresses P fs b) = None"
    and "ipAddresses (fst (loadIPAddresses P fs b)) = []"
    and "ipFile (fst (loadIPAddresses P fs b)) = ipFile b"
    and "reloadNeeded (fst (loadIPAddresses P fs b)) = reloadNeeded b"
    by (simp_all add: log_Debug_def)
next
  assume "ipFileExists fs b \<and> Open fs (ipFile b) = Inl e"
  then show "loadIPAddresses P fs b = (b, Some (OpenFailed (ipFile b) e))"
    by (simp add: loadIPAddresses_open_error)
next
  assume "ipFileExists fs b \<and> Open fs (ipFile b) = Inr file \<and> read_error file = Some e"
  then show "loadIPAddresses P fs b = (b, Some (ReadFailed (ipFile b) e))
      \<or> loadIPAddresses P fs b = (b, Some (ReadFailed (ipFile b) ErrTooLong))"
    using loadIPAddresses_read_error_which [of fs b "file" e P] by simp
qed

theorem loadIPAddresses_absent_or_failing_witness:
  "snd (loadIPAddresses example_ParseAddr fs_absent stale_list) = None
   \<and> ipAddresses (fst (loadIPAddresses example_ParseAddr fs_absent stale_list)) = []
   \<and> loadIPAddresses example_ParseAddr fs_unreadable stale_list
       = (stale_list, Some (OpenFailed ''/etc/caddy/banned'' (PathError EACCES)))
   \<and> fst (loadIPAddresses example_ParseAddr fs_read_error stale_list) = stale_list
   \<and> snd (loadIPAddresses example_ParseAddr fs_read_error stale_list) \<noteq> None"
proof -
  have path: "ipFile stale_list = ''/etc/caddy/banned''"
    by (simp add: stale_list_def fresh_list_def)
  have absent: "Lstat fs_absent (ipFile stale_list) = Inl (PathError ENOENT)"
    by (simp add: path fs_absent_def fs_with_def)
  have unreadable: "ipFileExists fs_unreadable stale_list
      \<and> Open fs_unreadable (ipFile stale_list) = Inl (PathError EACCES)"
    by (simp add: path ipFileExists_def fs_unreadable_def fs_with_def)
  have read_error: "ipFileExists fs_read_error stale_list
      \<and> Open fs_read_error (ipFile stale_list) = Inr (File ''10.0.0.1'' (Some (PathError EIO)))
      \<and> read_error (File ''10.0.0.1'' (Some (PathError EIO))) = Some (PathError EIO)"
    by (simp add: path ipFileExists_def fs_read_error_def fs_with_def)
  show ?thesis
    using loadIPAddresses_absent_or_failing
        [of fs_absent stale_list "PathError ENOENT" example_ParseAddr]
      loadIPAddresses_absent_or_failing
        [of fs_unreadable stale_list "PathError EACCES" example_ParseAddr]
      loadIPAddresses_absent_or_failing
        [of fs_read_error stale_list "PathError EIO" example_ParseAddr
            "File ''10.0.0.1'' (Some (PathError EIO))"]
      absent unreadable read_error
    by (auto simp: path)
qed

text \<open>
  C4, as the specification states it, fails on a file that holds the address
  \<^verbatim>\<open>10.0.0.1\<close> and then a comment line of 65536 bytes: the lines that parse are the one
  address, but the scanner stops with \<open>ErrTooLong\<close>, \<open>loadIPAddresses\<close> returns an
  error and the list stays as it was.
\<close>

theorem loadIPAddresses_long_line_counterexample:
  "parsed_addresses example_ParseAddr (map dropCR (text_lines long_line_text)) = [ip_10_0_0_1]
   \<and> loadIPAddresses example_ParseAddr fs_long_line stale_list
       = (stale_list, Some (ReadFailed ''/etc/caddy/banned'' ErrTooLong))"
proof -
  have size: "MaxScanTokenSize \<noteq> 0" "MaxScanTokenSize \<noteq> 8"
    by (simp_all add: MaxScanTokenSize_def)
  have "last (replicate MaxScanTokenSize (CHR ''#'')) = CHR ''#''"
    using size(1) by (rule last_replicate)
  then have "dropCR (replicate MaxScanTokenSize (CHR ''#'')) = replicate MaxScanTokenSize (CHR ''#'')"
    by (simp add: dropCR_def carriage_return_def)
  moreover have "replicate MaxScanTokenSize (CHR ''#'') \<noteq> l" if "length l = 8" for l
    using that size(2) by auto
  then have "replicate MaxScanTokenSize (CHR ''#'') \<noteq> ''10.0.0.1''"
    and "replicate MaxScanTokenSize (CHR ''#'') \<noteq> ''10.0.0.2''"
    by simp_all
  moreover have "dropCR ''10.0.0.1'' = ''10.0.0.1''"
    by (simp add: dropCR_def carriage_return_def)
  ultimately have "parsed_addresses example_ParseAddr (map dropCR (text_lines long_line_text))
      = [ip_10_0_0_1]"
    by (simp add: long_line_text_lines example_ParseAddr_def)
  moreover have "loadIPAddresses example_ParseAddr fs_long_line stale_list
      = (stale_list, Some (ReadFailed ''/etc/caddy/banned'' ErrTooLong))"
    by (rule long_line_load) (simp add: stale_list_def fresh_list_def)
  ultimately show ?thesis by simp
qed

text \<open>
  C4, amended. When the file exists and opens, reading it ends at the end of the file,
  and each of its newline-delimited lines is shorter than \<open>MaxScanTokenSize\<close> (65536)
  bytes, \<open>loadIPAddresses\<close> returns no error and the snapshot becomes the addresses of
  the lines that parse (a trailing carriage return dropped first), in line order. A
  line that does not parse contributes nothing: with or without it, the addresses are
  the same.
\<close>

theorem loadIPAddresses_parses_lines:
  assumes "ipFileExists fs b" and "Open fs (ipFile b) = Inr file" and "read_error file = None"
    and "\<forall>l\<in>set (text_lines (contents file)). length l < MaxScanTokenSize"
  shows "loadIPAddresses P fs b =
      (b\<lparr>ipAddresses := parsed_addresses P (map dropCR (text_lines (contents file)))\<rparr>, None)
    \<and> (\<forall>ls1 l ls2 e. P l = Inl e \<longrightarrow>
          parsed_addresses P (ls1 @ l # ls2) = parsed_addresses P (ls1 @ ls2))
    \<and> (\<forall>ls1 l ls2 ip. P l = Inr ip \<longrightarrow>
          parsed_addresses P (ls1 @ l # ls2)
            = parsed_addresses P ls1 @ ip # parsed_addresses P ls2)"
  using loadIPAddresses_lines [OF assms]
  by (simp add: parsed_addresses_append)

theorem loadIPAddresses_parses_lines_witness:
  "loadIPAddresses example_ParseAddr fs_readable stale_list
     = (stale_list\<lparr>ipAddresses := [ip_10_0_0_1, ip_10_0_0_2]\<rparr>, None)"
proof -
  have path: "ipFile stale_list = ''/etc/caddy/banned''"
    by (simp add: stale_list_def fresh_list_def)
  have 1: "ipFileExists fs_readable stale_list"
    by (simp add: path ipFileExists_def fs_readable_def fs_with_def)
  have 2: "Open fs_readable (ipFile stale_list) = Inr (File example_text None)"
    by (simp add: path fs_readable_def fs_with_def)
  have 3: "read_error (File example_text None) = None"
    by simp
  have 4: "\<forall>l\<in>set (text_lines (contents (File example_text None))).
      length l < MaxScanTokenSize"
    using example_text_short by simp
  show ?thesis
    using loadIPAddresses_parses_lines [OF 1 2 3 4, of example_ParseAddr]
    by (simp add: example_lines)
qed

lemma NewIPList_eq:
  "NewIPList Dir fs path lg =
     (if \<exists>st. Lstat fs (Dir path) = Inr st \<and> IsDir st
      then Inr \<lparr>ipFile = path, ipAddresses = [], logger = lg, reloadNeeded = True\<rparr>
      else Inl (DirectoryNotFound path))"
  by (cases "Lstat fs (Dir path)")
     (simp_all add: NewIPList_def ipFileDirectoryExists_def Let_def)

text \<open>
  C5. \<open>NewIPList\<close> returns an error, and no list, exactly when \<open>Lstat\<close> on the directory
  of the path fails or finds something that is not a directory; otherwise it returns
  the list with the given path, no address, the given logger and the flag set. Nothing
  else of the file system is read.
\<close>

theorem NewIPList_fails_iff:
  "NewIPList Dir fs path lg =
     (if \<exists>st. Lstat fs (Dir path) = Inr st \<and> IsDir st
      then Inr \<lparr>ipFile = path, ipAddresses = [], logger = lg, reloadNeeded = True\<rparr>
      else Inl (DirectoryNotFound path))
   \<and> ((\<exists>e. NewIPList Dir fs path lg = Inl e)
        = (\<not> (\<exists>st. Lstat fs (Dir path) = Inr st \<and> IsDir st)))
   \<and> (\<forall>b. NewIPList Dir fs path lg = Inr b \<longrightarrow> ipFile b = path)
   \<and> (\<forall>fs'. Lstat fs' (Dir path) = Lstat fs (Dir path) \<longrightarrow>
        NewIPList Dir fs' path lg = NewIPList Dir fs path lg)"
proof (intro conjI allI impI)
  show "NewIPList Dir fs path lg =
     (if \<exists>st. Lstat fs (Dir path) = Inr st \<and> IsDir st
      then Inr \<lparr>ipFile = path, ipAddresses = [], logger = lg, reloadNeeded = True\<rparr>
      else Inl (DirectoryNotFound path))"
    by (rule NewIPList_eq)
  show "(\<exists>e. NewIPList Dir fs path lg = Inl e)
        = (\<not> (\<exists>st. Lstat fs (Dir path) = Inr st \<and> IsDir st))"
    by (subst NewIPList_eq) simp
  show "ipFile b = path" if "NewIPList Dir fs path lg = Inr b" for b
    using that by (subst (asm) NewIPList_eq) (auto split: if_splits)
  show "NewIPList Dir fs' path lg = NewIPList Dir fs path lg"
    if "Lstat fs' (Dir path) = Lstat fs (Dir path)" for fs'
    using that by (simp only: NewIPList_eq)
qed

theorem NewIPList_fails_iff_witness:
  "NewIPList example_Dir fs_absent ''/etc/caddy/banned'' [] = Inr fresh_list
   \<and> NewIPList example_Dir fs_absent ''/srv/lists/banned'' []
       = Inl (DirectoryNotFound ''/srv/lists/banned'')
   \<and> NewIPList example_Dir fs_absent ''/etc/caddy/banned/list'' []
       = Inl (DirectoryNotFound ''/etc/caddy/banned/list'')"
proof -
  have 1: "example_Dir ''/etc/caddy/banned'' = ''/etc/caddy''"
    and 2: "example_Dir ''/srv/lists/banned'' = ''/srv/lists''"
    and 3: "example_Dir ''/etc/caddy/banned/list'' = ''/etc/caddy/banned''"
    by (simp_all add: example_Dir_def)
  have a: "\<exists>st. Lstat fs_absent ''/etc/caddy'' = Inr st \<and> IsDir st"
    by (simp add: fs_absent_def fs_with_def)
  have b: "\<not> (\<exists>st. Lstat fs_absent ''/srv/lists'' = Inr st \<and> IsDir st)"
    by (simp add: fs_absent_def fs_with_def)
  have c: "\<not> (\<exists>st. Lstat fs_absent ''/etc/caddy/banned'' = Inr st \<and> IsDir st)"
    by (simp add: fs_absent_def fs_with_def)
  have "NewIPList example_Dir fs_absent ''/etc/caddy/banned'' [] = Inr fresh_list"
    using NewIPList_fails_iff [of example_Dir fs_absent "''/etc/caddy/banned''" "[]"] a
    by (simp only: 1 if_True fresh_list_def)
  moreover have "NewIPList example_Dir fs_absent ''/srv/lists/banned'' []
       = Inl (DirectoryNotFound ''/srv/lists/banned'')"
    using NewIPList_fails_iff [of example_Dir fs_absent "''/srv/lists/banned''" "[]"] b
    by (simp only: 2 if_False)
  moreover have "NewIPList example_Dir fs_absent ''/etc/caddy/banned/list'' []
       = Inl (DirectoryNotFound ''/etc/caddy/banned/list'')"
    using NewIPList_fails_iff [of example_Dir fs_absent "''/etc/caddy/banned/list''" "[]"] c
    by (simp only: 3 if_False)
  ultimately show ?thesis
    by (intro conjI)
qed

section \<open>The watcher\<close>

lemma Has_Remove: "Op e = Remove \<Longrightarrow> \<not> Has e Create \<and> \<not> Has e Write"
  by (simp add: Has_def Remove_def Create_def Write_def)

lemma monitor_select_fields:
  "ipFile (fst (monitor_select b c)) = ipFile b"
  "ipAddresses (fst (monitor_select b c)) = ipAddresses b"
  by (cases c; simp add: monitor_select_def log_Debug_def log_Error_def Let_def)+

lemma monitor_select_flag:
  "reloadNeeded (fst (monitor_select b c)) =
     (reloadNeeded b
      \<or> (\<exists>e. c = w_Events e True \<and> ipFile b = Name e \<and> (Has e Create \<or> Has e Write)))"
  by (cases c) (auto simp: monitor_select_def log_Debug_def log_Error_def Let_def)

lemma monitor_loop_fields:
  "ipFile (monitor_loop b cs) = ipFile b"
  "ipAddresses (monitor_loop b cs) = ipAddresses b"
proof (induction cs arbitrary: b)
  case Nil
  {
    case 1 show ?case by simp
  next
    case 2 show ?case by simp
  }
next
  case (Cons c cs)
  {
    case 1
    show ?case
      using Cons.IH(1) [of "fst (monitor_select b c)"] monitor_select_fields(1) [of b c]
      by (cases "monitor_select b c") (auto split: bool.splits)
  next
    case 2
    show ?case
      using Cons.IH(2) [of "fst (monitor_select b c)"] monitor_select_fields(2) [of b c]
      by (cases "monitor_select b c") (auto split: bool.splits)
  }
qed

lemma monitor_loop_flag:
  "reloadNeeded (monitor_loop b cs) \<Longrightarrow> \<not> reloadNeeded b \<Longrightarrow>
   \<exists>e. w_Events e True \<in> set cs \<and> ipFile b = Name e \<and> (Has e Create \<or> Has e Write)"
proof (induction cs arbitrary: b)
  case Nil
  then show ?case by simp
next
  case (Cons c cs)
  let ?b' = "fst (monitor_select b c)"
  show ?case
  proof (cases "reloadNeeded ?b'")
    case True
    with Cons.prems(2) show ?thesis
      by (auto simp: monitor_select_flag)
  next
    case False
    have "reloadNeeded (monitor_loop ?b' cs)"
      using Cons.prems(1) False
      by (cases "monitor_select b c") (auto split: bool.splits)
    from Cons.IH [OF this False] show ?thesis
      by (auto simp: monitor_select_fields)
  qed
qed

text \<open>
  C6. One receive of the watcher's loop leaves the flag set exactly when it was set
  before or the receive is an event of an open channel whose name is the list's path
  and which has the create or the write bit. An event with another name, and a remove
  event of the list's path, leave the flag as it was; no receive changes the path or
  the snapshot. Over a whole run of \<open>monitor\<close>, a flag that was clear and is set at the
  end was set by such an event.
\<close>

theorem monitor_sets_flag_only_on_create_or_write:
  "reloadNeeded (fst (monitor_select b c)) =
     (reloadNeeded b
      \<or> (\<exists>e. c = w_Events e True \<and> ipFile b = Name e \<and> (Has e Create \<or> Has e Write)))
   \<and> (Name e \<noteq> ipFile b \<longrightarrow>
        reloadNeeded (fst (monitor_select b (w_Events e ok))) = reloadNeeded b)
   \<and> (Op e = Remove \<longrightarrow>
        reloadNeeded (fst (monitor_select b (w_Events e ok))) = reloadNeeded b)
   \<and> ipFile (fst (monitor_select b c)) = ipFile b
   \<and> ipAddresses (fst (monitor_select b c)) = ipAddresses b
   \<and> (reloadNeeded (monitor Dir fs NewWatcher_err Add_err b cs) \<and> \<not> reloadNeeded b \<longrightarrow>
        (\<exists>e. w_Events e True \<in> set cs \<and> ipFile b = Name e \<and> (Has e Create \<or> Has e Write)))"
proof (intro conjI impI)
  show "reloadNeeded (fst (monitor_select b c)) =
     (reloadNeeded b
      \<or> (\<exists>e. c = w_Events e True \<and> ipFile b = Name e \<and> (Has e Create \<or> Has e Write)))"
    by (rule monitor_select_flag)
  show "reloadNeeded (fst (monitor_select b (w_Events e ok))) = reloadNeeded b"
    if "Name e \<noteq> ipFile b"
    using that by (auto simp: monitor_select_flag)
  show "reloadNeeded (fst (monitor_select b (w_Events e ok))) = reloadNeeded b"
    if "Op e = Remove"
    using Has_Remove [OF that] by (auto simp: monitor_select_flag)
  show "ipFile (fst (monitor_select b c)) = ipFile b"
    and "ipAddresses (fst (monitor_select b c)) = ipAddresses b"
    by (rule monitor_select_fields)+
  show "\<exists>e. w_Events e True \<in> set cs \<and> ipFile b = Name e \<and> (Has e Create \<or> Has e Write)"
    if "reloadNeeded (monitor Dir fs NewWatcher_err Add_err b cs) \<and> \<not> reloadNeeded b"
  proof -
    from that have "reloadNeeded (monitor_loop b cs)"
      by (auto simp: monitor_def log_Error_def split: option.splits if_splits)
    with that show ?thesis
      by (intro monitor_loop_flag) simp_all
  qed
qed

theorem monitor_sets_flag_only_on_create_or_write_witness:
  "reloadNeeded (fst (monitor_select (fresh_list\<lparr>reloadNeeded := False\<rparr>)
      (w_Events (Event ''/etc/caddy/banned'' Write) True)))
   \<and> reloadNeeded (fst (monitor_select (fresh_list\<lparr>reloadNeeded := False\<rparr>)
      (w_Events (Event ''/etc/caddy/banned'' Create) True)))
   \<and> \<not> reloadNeeded (fst (monitor_select (fresh_list\<lparr>reloadNeeded := False\<rparr>)
      (w_Events (Event ''/etc/caddy/banned'' Remove) True)))
   \<and> \<not> reloadNeeded (fst (monitor_select (fresh_list\<lparr>reloadNeeded := False\<rparr>)
      (w_Events (Event ''/etc/caddy/allowed'' Write) True)))"
proof -
  let ?b = "fresh_list\<lparr>reloadNeeded := False\<rparr>"
  have path: "ipFile ?b = ''/etc/caddy/banned''" and clear: "\<not> reloadNeeded ?b"
    by (simp_all add: fresh_list_def)
  have bits: "Has (Event ''/etc/caddy/banned'' Write) Write"
    "Has (Event ''/etc/caddy/banned'' Create) Create"
    by (simp_all add: Has_def Write_def Create_def)
  show ?thesis
    using monitor_sets_flag_only_on_create_or_write
        [of ?b "w_Events (Event ''/etc/caddy/banned'' Write) True"
            "Event ''/etc/caddy/allowed'' Write" True]
      monitor_sets_flag_only_on_create_or_write
        [of ?b "w_Events (Event ''/etc/caddy/banned'' Create) True"
            "Event ''/etc/caddy/banned'' Remove" True]
      path clear bits
    by simp
qed

section \<open>Runs over an absent file or a directory\<close>

lemma ipFileExists_same_file:
  "ipFile b1 = ipFile b2 \<Longrightarrow> ipFileExists fs b1 = ipFileExists fs b2"
  by (simp add: ipFileExists_def)

lemma IsMatched_not_found:
  assumes "\<not> ipFileExists fs b" and "reloadNeeded b \<or> ipAddresses b = []"
  shows "\<not> snd (IsMatched P fs b ip)"
    and "ipAddresses (fst (IsMatched P fs b ip)) = []"
    and "failed_loads (logger (fst (IsMatched P fs b ip))) = failed_loads (logger b)"
proof -
  show "ipAddresses (fst (IsMatched P fs b ip)) = []"
  proof (cases "reloadNeeded b")
    case True
    then show ?thesis
      using IsMatched_reloaded [OF True loadIPAddresses_absent [OF assms(1)], of P ip]
      by (simp add: log_Debug_def)
  next
    case False
    with assms(2) show ?thesis
      by (simp add: IsMatched_clean)
  qed
  then show "\<not> snd (IsMatched P fs b ip)"
    by (simp add: IsMatched_result)
  show "failed_loads (logger (fst (IsMatched P fs b ip))) = failed_loads (logger b)"
  proof (cases "reloadNeeded b")
    case True
    then show ?thesis
      using IsMatched_reloaded [OF True loadIPAddresses_absent [OF assms(1)], of P ip]
      by (simp add: log_Debug_def failed_loads_def)
  next
    case False
    then show ?thesis
      by (simp add: IsMatched_clean)
  qed
qed

lemma monitor_select_failed_loads:
  "failed_loads (logger (fst (monitor_select b c))) = failed_loads (logger b)"
  by (cases c) (auto simp: monitor_select_def log_Debug_def log_Error_def Let_def failed_loads_def)

lemma run_not_found:
  assumes "\<not> ipFileExists fs b" and "reloadNeeded b \<or> ipAddresses b = []"
  shows "True \<notin> set (snd (run P fs b steps))
       \<and> failed_loads (logger (fst (run P fs b steps))) = failed_loads (logger b)"
  using assms
proof (induction steps arbitrary: b)
  case Nil
  then show ?case by simp
next
  case (Cons step steps)
  show ?case
  proof (cases step)
    case (Query ip)
    let ?b' = "fst (IsMatched P fs b ip)"
    have "\<not> ipFileExists fs ?b'"
      using Cons.prems(1) ipFileExists_same_file [OF IsMatched_ipFile, of fs P fs b ip]
      by simp
    moreover have "reloadNeeded ?b' \<or> ipAddresses ?b' = []"
      using IsMatched_not_found(2) [OF Cons.prems] by simp
    ultimately have "True \<notin> set (snd (run P fs ?b' steps))
        \<and> failed_loads (logger (fst (run P fs ?b' steps))) = failed_loads (logger ?b')"
      by (rule Cons.IH)
    then show ?thesis
      using Query IsMatched_not_found(1,3) [OF Cons.prems, of P ip]
      by (cases "IsMatched P fs b ip"; cases "run P fs (fst (IsMatched P fs b ip)) steps") auto
  next
    case (Watch c)
    let ?b' = "fst (monitor_select b c)"
    have "\<not> ipFileExists fs ?b'"
      using Cons.prems(1) ipFileExists_same_file [OF monitor_select_fields(1), of fs b c]
      by simp
    moreover have "reloadNeeded ?b' \<or> ipAddresses ?b' = []"
      using Cons.prems(2) by (auto simp: monitor_select_flag monitor_select_fields)
    ultimately have "True \<notin> set (snd (run P fs ?b' steps))
        \<and> failed_loads (logger (fst (run P fs ?b' steps))) = failed_loads (logger ?b')"
      by (rule Cons.IH)
    then show ?thesis
      using Watch by (simp add: monitor_select_failed_loads)
  qed
qed

text \<open>
  C7. When the directory of the path exists and \<open>Lstat\<close> finds no file at the path,
  \<open>NewIPList\<close> returns a list, and on that list, while the file system stays so, every
  query returns false: the first one, and each one of any run of queries and receives
  of the watcher; no load fails in such a run.
\<close>

theorem fresh_list_without_file_matches_nothing:
  assumes "Lstat fs (Dir path) = Inr st" and "IsDir st" and "Lstat fs path = Inl e"
  shows "\<exists>b. NewIPList Dir fs path lg = Inr b
           \<and> \<not> snd (IsMatched P fs b ip)
           \<and> True \<notin> set (snd (run P fs b steps))
           \<and> failed_loads (logger (fst (run P fs b steps))) = failed_loads lg"
proof -
  let ?b = "\<lparr>ipFile = path, ipAddresses = [], logger = lg, reloadNeeded = True\<rparr>"
  have new: "NewIPList Dir fs path lg = Inr ?b"
    using assms(1,2) by (simp add: NewIPList_eq)
  have absent: "\<not> ipFileExists fs ?b"
    using assms(3) by (simp add: ipFileExists_def)
  have dirty: "reloadNeeded ?b \<or> ipAddresses ?b = []"
    by simp
  show ?thesis
    using new IsMatched_not_found(1) [OF absent dirty, of P ip]
      run_not_found [OF absent dirty, of P steps]
    by simp
qed

theorem fresh_list_without_file_matches_nothing_witness:
  "NewIPList example_Dir fs_absent ''/etc/caddy/banned'' [] = Inr fresh_list
   \<and> \<not> snd (IsMatched example_ParseAddr fs_absent fresh_list ip_10_0_0_1)
   \<and> True \<notin> set (snd (run example_ParseAddr fs_absent fresh_list
        [Query ip_10_0_0_1, Watch (w_Events (Event ''/etc/caddy/banned'' Remove) True),
         Query ip_10_0_0_2]))"
proof -
  have dir: "Lstat fs_absent (example_Dir ''/etc/caddy/banned'') = Inr (FileInfo True)"
    by (simp add: example_Dir_def fs_absent_def fs_with_def)
  have absent: "Lstat fs_absent ''/etc/caddy/banned'' = Inl (PathError ENOENT)"
    by (simp add: fs_absent_def fs_with_def)
  have new: "NewIPList example_Dir fs_absent ''/etc/caddy/banned'' [] = Inr fresh_list"
    using dir by (simp add: NewIPList_eq fresh_list_def)
  show ?thesis
    using fresh_list_without_file_matches_nothing
        [where fs = fs_absent and Dir = example_Dir and path = "''/etc/caddy/banned''"
           and st = "FileInfo True" and e = "PathError ENOENT" and lg = "[]"
           and P = example_ParseAddr and ip = ip_10_0_0_1
           and steps = "[Query ip_10_0_0_1,
             Watch (w_Events (Event ''/etc/caddy/banned'' Remove) True), Query ip_10_0_0_2]"]
      dir absent
    by (simp add: new)
qed

text \<open>
  C10. When \<open>Lstat\<close> finds a directory at the list's path, \<open>loadIPAddresses\<close> does what
  it does for an absent file: it returns no error and leaves the empty snapshot. A
  query on a dirty list then returns false, clears the flag and logs no error, and so
  does every query of a run while the path stays a directory.
\<close>

theorem directory_at_path_is_empty_list:
  assumes "Lstat fs (ipFile b) = Inr st" and "IsDir st"
  shows "loadIPAddresses P fs b =
           ((log_Debug ''ip file not found, nothing to monitor'' b)\<lparr>ipAddresses := []\<rparr>, None)
       \<and> (\<forall>fs' e. Lstat fs' (ipFile b) = Inl e \<longrightarrow>
            loadIPAddresses P fs' b = loadIPAddresses P fs b)
       \<and> (reloadNeeded b \<longrightarrow>
            \<not> snd (IsMatched P fs b ip)
            \<and> \<not> reloadNeeded (fst (IsMatched P fs b ip))
            \<and> ipAddresses (fst (IsMatched P fs b ip)) = []
            \<and> True \<notin> set (snd (run P fs b steps))
            \<and> failed_loads (logger (fst (run P fs b steps))) = failed_loads (logger b))"
proof -
  have absent: "\<not> ipFileExists fs b"
    using assms by (simp add: ipFileExists_def)
  have load: "loadIPAddresses P fs b =
      ((log_Debug ''ip file not found, nothing to monitor'' b)\<lparr>ipAddresses := []\<rparr>, None)"
    using absent by (rule loadIPAddresses_absent)
  have same: "loadIPAddresses P fs' b = loadIPAddresses P fs b"
    if "Lstat fs' (ipFile b) = Inl e" for fs' e
  proof -
    from that have "\<not> ipFileExists fs' b"
      by (simp add: ipFileExists_def)
    then show ?thesis
      by (simp add: load loadIPAddresses_absent)
  qed
  have query: "\<not> snd (IsMatched P fs b ip)
      \<and> \<not> reloadNeeded (fst (IsMatched P fs b ip))
      \<and> ipAddresses (fst (IsMatched P fs b ip)) = []
      \<and> True \<notin> set (snd (run P fs b steps))
      \<and> failed_loads (logger (fst (run P fs b steps))) = failed_loads (logger b)"
    if dirty: "reloadNeeded b"
    using IsMatched_reloaded [OF dirty load, of ip] run_not_found [OF absent, of P steps] dirty
    by (simp add: log_Debug_def)
  from load same query show ?thesis
    by blast
qed

theorem directory_at_path_is_empty_list_witness:
  "loadIPAddresses example_ParseAddr (fs_with (Inr (FileInfo True)) (Inl (PathError EISDIR)))
     stale_list
     = ((log_Debug ''ip file not found, nothing to monitor'' stale_list)\<lparr>ipAddresses := []\<rparr>,
        None)
   \<and> \<not> snd (IsMatched example_ParseAddr
          (fs_with (Inr (FileInfo True)) (Inl (PathError EISDIR))) stale_list ip_10_0_0_3)
   \<and> True \<notin> set (snd (run example_ParseAddr
          (fs_with (Inr (FileInfo True)) (Inl (PathError EISDIR))) stale_list
          [Query ip_10_0_0_3, Query ip_10_0_0_1]))"
proof -
  let ?fs = "fs_with (Inr (FileInfo True)) (Inl (PathError EISDIR))"
  have st: "Lstat ?fs (ipFile stale_list) = Inr (FileInfo True)"
    by (simp add: fs_with_def stale_list_def fresh_list_def)
  have dir: "IsDir (FileInfo True)"
    by simp
  have dirty: "reloadNeeded stale_list"
    by (simp add: stale_list_def fresh_list_def)
  show ?thesis
    using directory_at_path_is_empty_list [OF st dir,
        of example_ParseAddr ip_10_0_0_3 "[Query ip_10_0_0_3, Query ip_10_0_0_1]"] dirty
    by simp
qed

section \<open>Repeated queries\<close>

lemma run_clean:
  "\<not> reloadNeeded b \<Longrightarrow>
   run P fs b (map Query ips) = (b, map (range_ipAddresses (ipAddresses b)) ips)"
  by (induction ips) (simp_all add: IsMatched_clean)

lemma IsMatched_again:
  "ipAddresses (fst (IsMatched P fs (fst (IsMatched P fs b ip)) ip'))
     = ipAddresses (fst (IsMatched P fs b ip))"
proof (cases "reloadNeeded b")
  case False
  then show ?thesis
    by (simp add: IsMatched_clean)
next
  case True
  show ?thesis
  proof (cases "snd (loadIPAddresses P fs b)")
    case None
    then have "loadIPAddresses P fs b = (fst (loadIPAddresses P fs b), None)"
      by (cases "loadIPAddresses P fs b") simp
    from IsMatched_reloaded [OF True this, of ip]
    have "\<not> reloadNeeded (fst (IsMatched P fs b ip))"
      by (simp add: log_Debug_def)
    then show ?thesis
      by (simp add: IsMatched_clean)
  next
    case (Some e)
    let ?b1 = "log_Error ''could not load IP addresses'' (Some e) b"
    have first: "IsMatched P fs b ip = (?b1, range_ipAddresses (ipAddresses b) ip)"
      using True Some by (rule IsMatched_failed)
    have "ipFile ?b1 = ipFile b" and dirty: "reloadNeeded ?b1"
      using True by (simp_all add: log_Error_def)
    then have "snd (loadIPAddresses P fs ?b1) = Some e"
      using loadIPAddresses_same_file(1) [of ?b1 b P fs] Some by simp
    with dirty
    have "IsMatched P fs ?b1 ip' =
        (log_Error ''could not load IP addresses'' (Some e) ?b1,
         range_ipAddresses (ipAddresses ?b1) ip')"
      by (rule IsMatched_failed)
    with first show ?thesis
      by (simp add: log_Error_def)
  qed
qed

lemma run_same_address:
  "snd (run P fs b (replicate n (Query ip))) = replicate n (snd (IsMatched P fs b ip))"
proof (induction n arbitrary: b)
  case 0
  show ?case by simp
next
  case (Suc n)
  let ?b1 = "fst (IsMatched P fs b ip)"
  have "snd (IsMatched P fs ?b1 ip) = snd (IsMatched P fs b ip)"
    by (simp add: IsMatched_result IsMatched_again)
  with Suc [of ?b1] show ?case
    by (cases "IsMatched P fs b ip"; cases "run P fs ?b1 (replicate n (Query ip))") simp
qed

lemma loadIPAddresses_reloads:
  "reloads (logger (fst (loadIPAddresses P fs b))) = reloads (logger b)"
  by (auto simp: loadIPAddresses_def log_Debug_def reloads_def Let_def
      split: sum.splits prod.splits option.splits)

lemma run_reloads:
  "reloads (logger (fst (run P fs b (map Query ips)))) \<le> reloads (logger b) + 1"
proof (induction ips arbitrary: b)
  case Nil
  show ?case by simp
next
  case (Cons ip ips)
  let ?b1 = "fst (IsMatched P fs b ip)"
  have step: "fst (run P fs b (map Query (ip # ips))) = fst (run P fs ?b1 (map Query ips))"
    by (cases "IsMatched P fs b ip"; cases "run P fs ?b1 (map Query ips)") simp
  show ?case
  proof (cases "reloadNeeded b")
    case False
    then show ?thesis
      using run_clean [of b P fs "ip # ips"] by simp
  next
    case True
    show ?thesis
    proof (cases "snd (loadIPAddresses P fs b)")
      case None
      then have load: "loadIPAddresses P fs b = (fst (loadIPAddresses P fs b), None)"
        by (cases "loadIPAddresses P fs b") simp
      from IsMatched_reloaded [OF True load, of ip]
      have clean: "\<not> reloadNeeded ?b1"
        and "reloads (logger ?b1) = reloads (logger (fst (loadIPAddresses P fs b))) + 1"
        by (simp_all add: log_Debug_def reloads_def)
      then have "reloads (logger ?b1) = reloads (logger b) + 1"
        by (simp add: loadIPAddresses_reloads)
      with run_clean [OF clean, of P fs ips] step show ?thesis
        by simp
    next
      case (Some e)
      with True have "?b1 = log_Error ''could not load IP addresses'' (Some e) b"
        by (simp add: IsMatched_failed)
      then have "reloads (logger ?b1) = reloads (logger b)"
        by (simp add: log_Error_def reloads_def)
      with Cons [of ?b1] step show ?thesis
        by simp
    qed
  qed
qed

lemma run_failed_loads:
  assumes "reloadNeeded b" and "snd (loadIPAddresses P fs b) = Some e"
  shows "failed_loads (logger (fst (run P fs b (replicate n (Query ip)))))
           = failed_loads (logger b) + n"
  using assms
proof (induction n arbitrary: b)
  case 0
  show ?case by simp
next
  case (Suc n)
  let ?b1 = "log_Error ''could not load IP addresses'' (Some e) b"
  have first: "IsMatched P fs b ip = (?b1, range_ipAddresses (ipAddresses b) ip)"
    using Suc.prems by (rule IsMatched_failed)
  have "ipFile ?b1 = ipFile b" and dirty: "reloadNeeded ?b1"
    using Suc.prems(1) by (simp_all add: log_Error_def)
  then have "snd (loadIPAddresses P fs ?b1) = Some e"
    using loadIPAddresses_same_file(1) [of ?b1 b P fs] Suc.prems(2) by simp
  with dirty have "failed_loads (logger (fst (run P fs ?b1 (replicate n (Query ip)))))
      = failed_loads (logger ?b1) + n"
    by (rule Suc.IH)
  moreover have "failed_loads (logger ?b1) = failed_loads (logger b) + 1"
    by (simp add: log_Error_def failed_loads_def)
  ultimately show ?case
    using first by (cases "run P fs ?b1 (replicate n (Query ip))") simp
qed

lemma loadIPAddresses_failed_loads:
  "failed_loads (logger (fst (loadIPAddresses P fs b))) = failed_loads (logger b)"
  by (auto simp: loadIPAddresses_def log_Debug_def failed_loads_def Let_def
      split: sum.splits prod.splits option.splits)

lemma run_no_failed_loads:
  assumes "\<not> reloadNeeded b \<or> snd (loadIPAddresses P fs b) = None"
  shows "failed_loads (logger (fst (run P fs b (map Query ips)))) = failed_loads (logger b)"
proof (cases "reloadNeeded b")
  case False
  then show ?thesis
    by (simp add: run_clean)
next
  case True
  with assms have "snd (loadIPAddresses P fs b) = None"
    by simp
  then have load: "loadIPAddresses P fs b = (fst (loadIPAddresses P fs b), None)"
    by (cases "loadIPAddresses P fs b") simp
  show ?thesis
  proof (cases ips)
    case Nil
    then show ?thesis by simp
  next
    case (Cons ip rest)
    let ?b1 = "fst (IsMatched P fs b ip)"
    from IsMatched_reloaded [OF True load, of ip]
    have clean: "\<not> reloadNeeded ?b1"
      and "failed_loads (logger ?b1) = failed_loads (logger (fst (loadIPAddresses P fs b)))"
      by (simp_all add: log_Debug_def failed_loads_def)
    then have "failed_loads (logger ?b1) = failed_loads (logger b)"
      by (simp add: loadIPAddresses_failed_loads)
    with run_clean [OF clean, of P fs rest] Cons show ?thesis
      by (cases "IsMatched P fs b ip") simp
  qed
qed

text \<open>
  C8. Queries for one address, one after the other, with the file system as it is and
  no receive of the watcher between them, all return what the first one returns, and
  together they add at most one reload to the log; unless the list is dirty and its
  load fails, they add no failed load either, so that \<open>loadIPAddresses\<close> runs at most
  once. A reload that succeeds clears the flag, and with the flag clear a run of
  queries neither loads nor logs nor changes the list, whatever the file system holds
  by then.
\<close>

theorem repeated_queries_agree_and_reload_once:
  "snd (run P fs b (replicate n (Query ip))) = replicate n (snd (IsMatched P fs b ip))
   \<and> reloads (logger (fst (run P fs b (replicate n (Query ip))))) \<le> reloads (logger b) + 1
   \<and> (\<not> reloadNeeded b \<or> snd (loadIPAddresses P fs b) = None \<longrightarrow>
        failed_loads (logger (fst (run P fs b (replicate n (Query ip)))))
          = failed_loads (logger b))
   \<and> (reloadNeeded b \<and> snd (loadIPAddresses P fs b) = None \<longrightarrow>
        \<not> reloadNeeded (fst (IsMatched P fs b ip))
        \<and> reloads (logger (fst (IsMatched P fs b ip))) = reloads (logger b) + 1)
   \<and> (\<not> reloadNeeded b \<longrightarrow>
        (\<forall>fs' ips. run P fs' b (map Query ips)
           = (b, map (range_ipAddresses (ipAddresses b)) ips)))"
proof (intro conjI impI allI)
  show "snd (run P fs b (replicate n (Query ip))) = replicate n (snd (IsMatched P fs b ip))"
    by (rule run_same_address)
  show "reloads (logger (fst (run P fs b (replicate n (Query ip))))) \<le> reloads (logger b) + 1"
    using run_reloads [of P fs b "replicate n ip"] by simp
  show "run P fs' b (map Query ips) = (b, map (range_ipAddresses (ipAddresses b)) ips)"
    if "\<not> reloadNeeded b" for fs' ips
    using that by (rule run_clean)
  show "failed_loads (logger (fst (run P fs b (replicate n (Query ip)))))
      = failed_loads (logger b)"
    if "\<not> reloadNeeded b \<or> snd (loadIPAddresses P fs b) = None"
    using that run_no_failed_loads [of b P fs "replicate n ip"] by simp
next
  assume a: "reloadNeeded b \<and> snd (loadIPAddresses P fs b) = None"
  then have load: "loadIPAddresses P fs b = (fst (loadIPAddresses P fs b), None)"
    by (cases "loadIPAddresses P fs b") simp
  from a have dirty: "reloadNeeded b" by simp
  from IsMatched_reloaded [OF dirty load, of ip]
  show "\<not> reloadNeeded (fst (IsMatched P fs b ip))"
    and "reloads (logger (fst (IsMatched P fs b ip))) = reloads (logger b) + 1"
    using loadIPAddresses_reloads [of P fs b]
    by (simp_all add: log_Debug_def reloads_def)
qed

theorem repeated_queries_agree_and_reload_once_witness:
  "snd (run example_ParseAddr fs_readable fresh_list (replicate 3 (Query ip_10_0_0_1)))
     = [True, True, True]
   \<and> reloads (logger (fst (run example_ParseAddr fs_readable fresh_list
        (replicate 3 (Query ip_10_0_0_1))))) \<le> 1
   \<and> \<not> reloadNeeded (fst (IsMatched example_ParseAddr fs_readable fresh_list ip_10_0_0_1))"
proof -
  have path: "ipFile fresh_list = ''/etc/caddy/banned''" and dirty: "reloadNeeded fresh_list"
    and log: "logger fresh_list = []"
    by (simp_all add: fresh_list_def)
  have load: "loadIPAddresses example_ParseAddr fs_readable fresh_list
      = (fresh_list\<lparr>ipAddresses := [ip_10_0_0_1, ip_10_0_0_2]\<rparr>, None)"
    using path by (rule example_load)
  have first: "snd (IsMatched example_ParseAddr fs_readable fresh_list ip_10_0_0_1)"
    using IsMatched_reloaded [OF dirty load, of ip_10_0_0_1]
    by (simp add: Compare_def)
  have three: "replicate 3 x = [x, x, x]" for x :: bool
    by (simp add: numeral_3_eq_3)
  show ?thesis
    using repeated_queries_agree_and_reload_once
        [of example_ParseAddr fs_readable fresh_list 3 ip_10_0_0_1]
      first dirty load
    by (simp add: three log reloads_def)
qed

end
